theory Spec2Isabelle
  imports Main "HOL-Library.Word"
begin

unbundle bit_operations_syntax

section \<open>The three-wire bus driver of the Felica Plug (three_wire.c)\<close>

text \<open>
  The driver bit-bangs a half-duplex serial bus through the I/O registers of one AVR
  port. Its functions are sequences of read-modify-write statements on registers
  (\<^verbatim>\<open>REG |= mask\<close>, \<^verbatim>\<open>REG &= mask\<close>), busy-wait delays and reads of the input register.
  The model keeps the registers as 8-bit words, runs every statement as a state
  transformer, and logs each statement in a trace, so that the order of the statements
  and the delays between them can be stated.
\<close>

subsection \<open>Wiring\<close>

type_synonym u8 = "8 word"

text \<open>
  The bit numbers come from headers that are not part of the sources at hand:
  \<^verbatim>\<open>TWSPI_SEL\<close>, \<^verbatim>\<open>TWSPI_CLK\<close>, \<^verbatim>\<open>TWSPI_DATA\<close>, \<^verbatim>\<open>TWSPI_SW\<close>, \<^verbatim>\<open>TWSPI_IRQ\<close> and \<^verbatim>\<open>TWSPI_RFDET\<close> from
  three_wire.h, and \<^verbatim>\<open>PCIE0\<close>, \<^verbatim>\<open>PCINT4\<close> and \<^verbatim>\<open>PCINT5\<close> from avr/io.h. They are parameters
  of the model.
\<close>

record wiring =
  SEL :: nat
  CLK :: nat
  DATA :: nat
  SW :: nat
  IRQ :: nat
  RFDET :: nat
  PCIE0 :: nat
  PCINT4 :: nat
  PCINT5 :: nat

text \<open>
  A wiring is usable when every line has a bit of its own in the 8-bit port, and the two
  pin-change mask bits and the enable bit are bits of 8-bit registers, the mask bits
  distinct.
\<close>

definition wired :: "wiring \<Rightarrow> bool" where
  "wired w = (distinct [SEL w, CLK w, DATA w, SW w, IRQ w, RFDET w]
     \<and> list_all (\<lambda>n. n < 8) [SEL w, CLK w, DATA w, SW w, IRQ w, RFDET w,
          PCIE0 w, PCINT4 w, PCINT5 w]
     \<and> PCINT4 w \<noteq> PCINT5 w)"

text \<open>
  The wiring the comments of three_wire.c describe (IRQ on PB4/PCINT4, RFDET on
  PB5/PCINT5), with the other lines on the low bits of the port; it is the concrete
  wiring of the examples.
\<close>

definition board :: wiring where
  "board = \<lparr>SEL = 0, CLK = 2, DATA = 1, SW = 3, IRQ = 4, RFDET = 5,
     PCIE0 = 0, PCINT4 = 4, PCINT5 = 5\<rparr>"

text \<open>\<^verbatim>\<open>_BV(n)\<close> is \<^verbatim>\<open>1 << n\<close>, here already truncated to the register's 8 bits.\<close>

definition BV :: "nat \<Rightarrow> u8" where
  "BV n = push_bit n 1"

subsection \<open>Machine state and statements\<close>

datatype reg = R_DDR | R_PORT | R_PCICR | R_PCMSK0

text \<open>
  One event per executed statement: \<open>OrEq r m\<close> is \<^verbatim>\<open>r |= m\<close>, \<open>AndEq r m\<close> is \<^verbatim>\<open>r &= m\<close>,
  \<open>Delay n\<close> is \<^verbatim>\<open>_delay_us(n)\<close>, and \<open>Rd v\<close> is a read of \<^verbatim>\<open>TWSPI_PIN\<close> that saw \<open>v\<close>.
\<close>

datatype event = OrEq reg u8 | AndEq reg u8 | Delay nat | Rd u8

text \<open>
  \<open>DDR\<close>, \<open>PORT\<close> are \<^verbatim>\<open>TWSPI_DDR\<close> and \<^verbatim>\<open>TWSPI_PORT\<close>. \<^verbatim>\<open>TWSPI_PIN\<close> is volatile and driven from
  outside: \<open>pin_in s k\<close> is the value its \<open>k\<close>-th read sees, and \<open>reads\<close> counts the reads
  made so far. \<open>sram\<close> is the data memory the buffer pointers point into, addressed by
  natural numbers. \<open>held\<close> is what the output latch shows over time: for each busy-wait
  executed so far, the value \<^verbatim>\<open>TWSPI_PORT\<close> holds during the wait and the length of the
  wait in microseconds.
\<close>

record mcu =
  DDR :: u8
  PORT :: u8
  PCICR :: u8
  PCMSK0 :: u8
  pin_in :: "nat \<Rightarrow> u8"
  reads :: nat
  sram :: "nat \<Rightarrow> u8"
  trace :: "event list"
  held :: "(u8 \<times> nat) list"

definition get_reg :: "reg \<Rightarrow> mcu \<Rightarrow> u8" where
  "get_reg r s = (case r of R_DDR \<Rightarrow> DDR s | R_PORT \<Rightarrow> PORT s
     | R_PCICR \<Rightarrow> PCICR s | R_PCMSK0 \<Rightarrow> PCMSK0 s)"

definition put_reg :: "reg \<Rightarrow> u8 \<Rightarrow> mcu \<Rightarrow> mcu" where
  "put_reg r v s = (case r of R_DDR \<Rightarrow> s\<lparr>DDR := v\<rparr> | R_PORT \<Rightarrow> s\<lparr>PORT := v\<rparr>
     | R_PCICR \<Rightarrow> s\<lparr>PCICR := v\<rparr> | R_PCMSK0 \<Rightarrow> s\<lparr>PCMSK0 := v\<rparr>)"

definition log :: "event \<Rightarrow> mcu \<Rightarrow> mcu" where
  "log e s = s\<lparr>trace := trace s @ [e]\<rparr>"

definition or_eq :: "reg \<Rightarrow> u8 \<Rightarrow> mcu \<Rightarrow> mcu" where
  "or_eq r m s = log (OrEq r m) (put_reg r (get_reg r s OR m) s)"

definition and_eq :: "reg \<Rightarrow> u8 \<Rightarrow> mcu \<Rightarrow> mcu" where
  "and_eq r m s = log (AndEq r m) (put_reg r (get_reg r s AND m) s)"

text \<open>
  \<^verbatim>\<open>_delay_us(n)\<close> changes no register: the port keeps its value for the \<open>n\<close> microseconds
  of the wait, which \<open>held\<close> records.
\<close>

definition delay_us :: "nat \<Rightarrow> mcu \<Rightarrow> mcu" where
  "delay_us n s = log (Delay n) (s\<lparr>held := held s @ [(PORT s, n)]\<rparr>)"

definition read_pin :: "mcu \<Rightarrow> u8 \<times> mcu" where
  "read_pin s = (let v = pin_in s (reads s)
     in (v, log (Rd v) (s\<lparr>reads := reads s + 1\<rparr>)))"

text \<open>A block of statements, run first to last.\<close>

definition block :: "(mcu \<Rightarrow> mcu) list \<Rightarrow> mcu \<Rightarrow> mcu" where
  "block stmts s = fold (\<lambda>stmt. stmt) stmts s"

subsection \<open>Pin setup and power control\<close>

definition twspi_init :: "wiring \<Rightarrow> mcu \<Rightarrow> mcu" where
  "twspi_init w = block
     [or_eq R_DDR (BV (SEL w)),
      or_eq R_DDR (BV (CLK w)),
      or_eq R_DDR (BV (SW w))]"

definition twspi_disable :: "wiring \<Rightarrow> mcu \<Rightarrow> mcu" where
  "twspi_disable w =
     and_eq R_DDR (NOT (BV (SEL w)) AND NOT (BV (CLK w)) AND NOT (BV (SW w)))"



definition rcs926_data_ready :: "wiring \<Rightarrow> mcu \<Rightarrow> bool \<times> mcu" where
  "rcs926_data_ready w s = (let (v, s') = read_pin s
     in ((v AND BV (IRQ w)) \<noteq> 0, s'))"

definition rcs926_rf_present :: "wiring \<Rightarrow> mcu \<Rightarrow> bool \<times> mcu" where
  "rcs926_rf_present w s = (let (v, s') = read_pin s
     in ((v AND BV (RFDET w)) = 0, s'))"

definition rcs926_wake_up_on_rf :: "wiring \<Rightarrow> bool \<Rightarrow> mcu \<Rightarrow> mcu" where
  "rcs926_wake_up_on_rf w enable =
     (if enable then block
        [or_eq R_PCICR (BV (PCIE0 w)),
         or_eq R_PCMSK0 (BV (PCINT5 w))]
      else and_eq R_PCMSK0 (NOT (BV (PCINT5 w))))"

definition rcs926_wake_up_on_irq :: "wiring \<Rightarrow> bool \<Rightarrow> mcu \<Rightarrow> mcu" where
  "rcs926_wake_up_on_irq w enable =
     (if enable then block
        [or_eq R_PCICR (BV (PCIE0 w)),
         or_eq R_PCMSK0 (BV (PCINT4 w))]
      else and_eq R_PCMSK0 (NOT (BV (PCINT4 w))))"

subsection \<open>Transfers\<close>

definition twspi_begin_send :: "wiring \<Rightarrow> mcu \<Rightarrow> mcu" where
  "twspi_begin_send w = block
     [and_eq R_PORT (NOT (BV (SEL w))),
      delay_us 1,
      or_eq R_DDR (BV (DATA w))]"

definition twspi_end_send :: "wiring \<Rightarrow> mcu \<Rightarrow> mcu" where
  "twspi_end_send w = block
     [delay_us 1,
      and_eq R_DDR (NOT (BV (DATA w))),
      delay_us 1,
      or_eq R_PORT (BV (SEL w))]"

text \<open>
  The body of the \<^verbatim>\<open>do ... while (--i)\<close> loop of \<^verbatim>\<open>twspi_send\<close>, for the current value of
  \<open>c\<close>; the loop shifts \<open>c\<close> left by one in the middle of the body, which touches no
  register.
\<close>

definition twspi_send_bit :: "wiring \<Rightarrow> u8 \<Rightarrow> mcu \<Rightarrow> mcu" where
  "twspi_send_bit w c = block
     [and_eq R_PORT (NOT (BV (CLK w))),
      (if c AND 0x80 \<noteq> 0 then or_eq R_PORT (BV (DATA w))
       else and_eq R_PORT (NOT (BV (DATA w)))),
      delay_us 1,
      or_eq R_PORT (BV (CLK w)),
      delay_us 1]"

text \<open>
  The loop counter \<open>i\<close> is a \<^verbatim>\<open>uint8_t\<close>: it is decremented with wrap-around after the
  body, and the loop goes on while the decremented value is not zero.
\<close>

function twspi_send_loop :: "wiring \<Rightarrow> u8 \<Rightarrow> u8 \<Rightarrow> mcu \<Rightarrow> mcu" where
  "twspi_send_loop w c i s =
     (let s' = twspi_send_bit w c s;
          c' = push_bit 1 c;
          i' = i - 1
      in if i' \<noteq> 0 then twspi_send_loop w c' i' s' else s')"
  by pat_completeness auto
termination
proof (relation "measure (\<lambda>(w, c, i, s). unat (i - 1))")
  fix w :: wiring and c c' i x :: u8 and s s' :: mcu
  assume x: "x = i - 1" "x \<noteq> 0"
  from x(2) have "unat (x - 1) < unat x"
    by (simp add: unat_minus_one unat_gt_0)
  with x show "((w, c', x, s'), (w, c, i, s))
      \<in> measure (\<lambda>(w, c, i, s). unat (i - 1))"
    by simp
qed simp

declare twspi_send_loop.simps [simp del]

definition twspi_send :: "wiring \<Rightarrow> u8 \<Rightarrow> mcu \<Rightarrow> mcu" where
  "twspi_send w c s = twspi_send_loop w c 8 s"

text \<open>\<^verbatim>\<open>twspi_send_buf\<close>: \<open>buf\<close> is the address the pointer holds, \<open>len\<close> a \<^verbatim>\<open>uint8_t\<close>.\<close>

function twspi_send_buf :: "wiring \<Rightarrow> nat \<Rightarrow> u8 \<Rightarrow> mcu \<Rightarrow> mcu" where
  "twspi_send_buf w buf len s =
     (let s' = twspi_send w (sram s buf) s;
          buf' = buf + 1;
          len' = len - 1
      in if len' \<noteq> 0 then twspi_send_buf w buf' len' s' else s')"
  by pat_completeness auto
termination
proof (relation "measure (\<lambda>(w, buf, len, s). unat (len - 1))")
  fix w :: wiring and buf buf' :: nat and len x :: u8 and s s' :: mcu
  assume x: "x = len - 1" "x \<noteq> 0"
  from x(2) have "unat (x - 1) < unat x"
    by (simp add: unat_minus_one unat_gt_0)
  with x show "((w, buf', x, s'), (w, buf, len, s))
      \<in> measure (\<lambda>(w, buf, len, s). unat (len - 1))"
    by simp
qed simp

declare twspi_send_buf.simps [simp del]

text \<open>
  The body of the \<^verbatim>\<open>for\<close> loop of \<^verbatim>\<open>twspi_get\<close>: from the accumulator \<open>data\<close> and the
  state to the new accumulator and state.
\<close>

definition twspi_get_bit :: "wiring \<Rightarrow> u8 \<Rightarrow> mcu \<Rightarrow> u8 \<times> mcu" where
  "twspi_get_bit w data s =
     (let s1 = and_eq R_PORT (NOT (BV (CLK w))) s;
          s2 = delay_us 1 s1;
          data1 = push_bit 1 data;
          (v, s3) = read_pin s2;
          data2 = (if v AND BV (DATA w) \<noteq> 0 then data1 OR 1 else data1);
          s4 = or_eq R_PORT (BV (CLK w)) s3;
          s5 = delay_us 1 s4
      in (data2, s5))"

text \<open>The loop itself, \<^verbatim>\<open>for (uint8_t i = 0; i < 8; i++)\<close>, started with \<open>data = 0\<close>.\<close>

function twspi_get_loop :: "wiring \<Rightarrow> u8 \<Rightarrow> u8 \<Rightarrow> mcu \<Rightarrow> u8 \<times> mcu" where
  "twspi_get_loop w i data s =
     (if i < 8 then
        let (data', s') = twspi_get_bit w data s
        in twspi_get_loop w (i + 1) data' s'
      else (data, s))"
  by pat_completeness auto
termination
  by (relation "measure (\<lambda>(w, i, data, s). 8 - unat i)")
     (auto simp: word_less_nat_alt unat_word_ariths)

declare twspi_get_loop.simps [simp del]

definition twspi_get :: "wiring \<Rightarrow> mcu \<Rightarrow> u8 \<times> mcu" where
  "twspi_get w s = twspi_get_loop w 0 0 s"

text \<open>\<^verbatim>\<open>twspi_get_buf\<close>: each received byte is stored through the pointer.\<close>

function twspi_get_buf :: "wiring \<Rightarrow> nat \<Rightarrow> u8 \<Rightarrow> mcu \<Rightarrow> mcu" where
  "twspi_get_buf w buf len s =
     (let (v, s1) = twspi_get w s;
          s' = s1\<lparr>sram := (sram s1)(buf := v)\<rparr>;
          buf' = buf + 1;
          len' = len - 1
      in if len' \<noteq> 0 then twspi_get_buf w buf' len' s' else s')"
  by pat_completeness auto
termination
proof (relation "measure (\<lambda>(w, buf, len, s). unat (len - 1))")
  fix w :: wiring and buf buf' :: nat and len x :: u8 and s s' :: mcu
  assume x: "x = len - 1" "x \<noteq> 0"
  from x(2) have "unat (x - 1) < unat x"
    by (simp add: unat_minus_one unat_gt_0)
  with x show "((w, buf', x, s'), (w, buf, len, s))
      \<in> measure (\<lambda>(w, buf, len, s). unat (len - 1))"
    by simp
qed simp

declare twspi_get_buf.simps [simp del]

subsection \<open>Vocabulary of the statements\<close>

text \<open>
  The statements one clock cycle of \<^verbatim>\<open>twspi_send\<close> executes for a data bit \<open>b\<close>: Clock low,
  Data to \<open>b\<close>, 1 microsecond, Clock high, 1 microsecond.
\<close>

definition send_cycle :: "wiring \<Rightarrow> bool \<Rightarrow> event list" where
  "send_cycle w b =
     [AndEq R_PORT (NOT (BV (CLK w))),
      if b then OrEq R_PORT (BV (DATA w)) else AndEq R_PORT (NOT (BV (DATA w))),
      Delay 1, OrEq R_PORT (BV (CLK w)), Delay 1]"

text \<open>The statements of a whole byte: eight cycles, bit 7 of \<open>v\<close> first, bit 0 last.\<close>

definition send_events :: "wiring \<Rightarrow> u8 \<Rightarrow> event list" where
  "send_events w v = concat (map (\<lambda>k. send_cycle w (bit v (7 - k))) [0..<8])"

text \<open>
  The statements one clock cycle of \<^verbatim>\<open>twspi_get\<close> executes when the read of the input
  register sees \<open>v\<close>: Clock low, 1 microsecond, the read, Clock high, 1 microsecond.
\<close>

definition get_cycle :: "wiring \<Rightarrow> u8 \<Rightarrow> event list" where
  "get_cycle w v =
     [AndEq R_PORT (NOT (BV (CLK w))), Delay 1, Rd v, OrEq R_PORT (BV (CLK w)), Delay 1]"

text \<open>
  The port value \<open>P\<close> with bit \<open>n\<close> driven to the level \<open>b\<close>: what \<^verbatim>\<open>PORT |= _BV(n)\<close>
  (high) and \<^verbatim>\<open>PORT &= ~_BV(n)\<close> (low) make of it.
\<close>

definition drive :: "nat \<Rightarrow> bool \<Rightarrow> u8 \<Rightarrow> u8" where
  "drive n b P = (if b then P OR BV n else P AND NOT (BV n))"

text \<open>
  The specification's description of \<^verbatim>\<open>getBuffer\<close>, to compare \<^verbatim>\<open>twspi_get_buf\<close> with:
  \<^verbatim>\<open>getByte\<close> is invoked exactly \<open>n\<close> times, and the results are appended in call
  order.
\<close>

fun getBuffer_spec :: "wiring \<Rightarrow> nat \<Rightarrow> mcu \<Rightarrow> u8 list \<times> mcu" where
  "getBuffer_spec w 0 s = ([], s)"
| "getBuffer_spec w (Suc n) s =
     (let (v, s1) = twspi_get w s;
          (vs, s2) = getBuffer_spec w n s1
      in (v # vs, s2))"

text \<open>The memory \<open>m\<close> with the bytes \<open>vs\<close> stored from address \<open>buf\<close> upwards.\<close>

definition store_bytes :: "nat \<Rightarrow> u8 list \<Rightarrow> (nat \<Rightarrow> u8) \<Rightarrow> nat \<Rightarrow> u8" where
  "store_bytes buf vs m a = (if buf \<le> a \<and> a < buf + length vs then vs ! (a - buf) else m a)"

subsection \<open>A start state for the examples\<close>

text \<open>All registers and the memory zero, every input line low, nothing executed yet.\<close>

definition mcu0 :: mcu where
  "mcu0 = \<lparr>DDR = 0, PORT = 0, PCICR = 0, PCMSK0 = 0, pin_in = (\<lambda>k. 0), reads = 0,
     sram = (\<lambda>a. 0), trace = [], held = []\<rparr>"

text \<open>
  The input register as sixteen successive reads see it when the Data line (bit 1 on
  \<open>board\<close>) carries the bytes 0x3C and 0xFF, most significant bit first.
\<close>

definition rx_3C_FF :: "nat \<Rightarrow> u8" where
  "rx_3C_FF k = (if k < 2 then 0 else if k < 6 then 2 else if k < 8 then 0 else 2)"

section \<open>Basic facts\<close>

lemmas stmt_defs = or_eq_def and_eq_def delay_us_def log_def put_reg_def get_reg_def
  read_pin_def block_def

lemma bit_BV: "bit (BV n) k \<longleftrightarrow> k = n \<and> n < 8"
  by (auto simp: BV_def bit_exp_iff)

lemma and_BV_eq_0: "(v AND BV n = 0) = (\<not> bit v n)"
proof
  assume "v AND BV n = 0"
  then have "\<not> bit (v AND BV n) n" by simp
  then show "\<not> bit v n"
    by (auto simp: bit_and_iff bit_BV dest: bit_imp_le_length)
next
  assume "\<not> bit v n"
  then show "v AND BV n = 0"
    by (intro bit_eqI) (auto simp: bit_and_iff bit_BV)
qed

lemmas bit_ops = bit_and_iff bit_or_iff bit_not_iff bit_BV

lemma wired_board: "wired board"
  by (simp add: wired_def board_def)

subsection \<open>Counting down an 8-bit counter\<close>

lemma of_nat_u8_eq_1: "0 < m \<Longrightarrow> m < 256 \<Longrightarrow> (of_nat (Suc m) :: u8) \<noteq> 1"
proof
  assume m: "0 < m" "m < 256" and "(of_nat (Suc m) :: u8) = 1"
  then have "(of_nat m :: u8) = 0" by simp
  then have "unat (of_nat m :: u8) = 0" by simp
  with m show False by (simp add: unat_of_nat)
qed

lemma iterations_of_len:
  fixes len :: u8
  assumes "len \<noteq> 0"
  shows "0 < unat len" and "unat len \<le> 256" and "of_nat (unat len) = len"
proof -
  show "0 < unat len" using assms by (simp add: unat_gt_0)
  have "unat len < 2 ^ LENGTH(8)" by (rule unsigned_less)
  then show "unat len \<le> 256" by simp
  show "of_nat (unat len) = len" by simp
qed

lemma fold_upt_Suc: "fold f [0..<Suc m] s = fold (\<lambda>k. f (Suc k)) [0..<m] (f 0 s)"
proof -
  have "[0..<Suc m] = 0 # map Suc [0..<m]"
    by (simp add: upt_conv_Cons map_Suc_upt del: upt_Suc)
  then show ?thesis by (simp add: fold_map comp_def del: upt_Suc)
qed

subsection \<open>The send loop\<close>

lemma msb_test: "(c AND 0x80 \<noteq> 0) = bit c 7" for c :: u8
proof -
  have "(c AND BV 7 \<noteq> 0) = bit c 7"
    by (simp add: and_BV_eq_0)
  moreover have "BV 7 = (0x80 :: u8)"
    by (simp add: BV_def)
  ultimately show ?thesis by simp
qed

lemma send_bit_frame:
  "DDR (twspi_send_bit w c s) = DDR s" "PCICR (twspi_send_bit w c s) = PCICR s"
  "PCMSK0 (twspi_send_bit w c s) = PCMSK0 s" "sram (twspi_send_bit w c s) = sram s"
  "pin_in (twspi_send_bit w c s) = pin_in s" "reads (twspi_send_bit w c s) = reads s"
  by (simp_all add: twspi_send_bit_def stmt_defs msb_test)

lemma send_loop_last: "twspi_send_loop w c 1 s = twspi_send_bit w c s"
  by (subst twspi_send_loop.simps) (simp add: Let_def)

lemma send_loop_step:
  "i \<noteq> 1 \<Longrightarrow> twspi_send_loop w c i s =
     twspi_send_loop w (push_bit 1 c) (i - 1) (twspi_send_bit w c s)"
  by (subst twspi_send_loop.simps) (simp add: Let_def)

lemma send_loop_fold:
  "0 < n \<Longrightarrow> n \<le> 256 \<Longrightarrow>
   twspi_send_loop w c (of_nat n) s = fold (\<lambda>k. twspi_send_bit w (push_bit k c)) [0..<n] s"
proof (induction n arbitrary: c s)
  case 0
  then show ?case by simp
next
  case (Suc m)
  show ?case
  proof (cases "m = 0")
    case True
    then show ?thesis by (simp add: send_loop_last)
  next
    case False
    with Suc.prems have ne: "(of_nat (Suc m) :: u8) \<noteq> 1"
      by (intro of_nat_u8_eq_1) simp_all
    have sh: "push_bit k (push_bit 1 c) = push_bit (Suc k) c" for k
      by (simp add: push_bit_eq_mult)
    have "twspi_send_loop w c (of_nat (Suc m)) s =
        twspi_send_loop w (push_bit 1 c) (of_nat m) (twspi_send_bit w c s)"
      using send_loop_step [OF ne] by simp
    also have "\<dots> = fold (\<lambda>k. twspi_send_bit w (push_bit (Suc k) c)) [0..<m]
        (twspi_send_bit w c s)"
    proof -
      from False Suc.prems have "0 < m" and "m \<le> 256" by simp_all
      then show ?thesis by (simp only: Suc.IH sh)
    qed
    also have "\<dots> = fold (\<lambda>k. twspi_send_bit w (push_bit k c)) [0..<Suc m] s"
      by (simp only: fold_upt_Suc [where f = "\<lambda>k. twspi_send_bit w (push_bit k c)"])
        simp
    finally show ?thesis .
  qed
qed

lemma twspi_send_fold:
  "twspi_send w v s = fold (\<lambda>k. twspi_send_bit w (push_bit k v)) [0..<8] s"
  using send_loop_fold [of 8 w v s] by (simp add: twspi_send_def)

lemma fold_send_bit_frame:
  "DDR (fold (\<lambda>k. twspi_send_bit w (f k)) ks s) = DDR s
   \<and> PCICR (fold (\<lambda>k. twspi_send_bit w (f k)) ks s) = PCICR s
   \<and> PCMSK0 (fold (\<lambda>k. twspi_send_bit w (f k)) ks s) = PCMSK0 s
   \<and> sram (fold (\<lambda>k. twspi_send_bit w (f k)) ks s) = sram s
   \<and> pin_in (fold (\<lambda>k. twspi_send_bit w (f k)) ks s) = pin_in s
   \<and> reads (fold (\<lambda>k. twspi_send_bit w (f k)) ks s) = reads s"
  by (induction ks arbitrary: s) (simp_all add: send_bit_frame)

lemma twspi_send_frame:
  "DDR (twspi_send w v s) = DDR s" "PCICR (twspi_send w v s) = PCICR s"
  "PCMSK0 (twspi_send w v s) = PCMSK0 s" "sram (twspi_send w v s) = sram s"
  "pin_in (twspi_send w v s) = pin_in s" "reads (twspi_send w v s) = reads s"
  by (simp_all only: twspi_send_fold fold_send_bit_frame)

lemma trace_send_bit:
  "trace (twspi_send_bit w c s) = trace s @ send_cycle w (bit c 7)"
  by (simp add: twspi_send_bit_def stmt_defs msb_test send_cycle_def)

lemma trace_fold_send_bit:
  "trace (fold (\<lambda>k. twspi_send_bit w (f k)) ks s) =
     trace s @ concat (map (\<lambda>k. send_cycle w (bit (f k) 7)) ks)"
  by (induction ks arbitrary: s) (simp_all add: trace_send_bit)

lemma bit7_shifted: "k < 8 \<Longrightarrow> bit (push_bit k c) 7 = bit c (7 - k)" for c :: u8
  by (simp add: bit_push_bit_iff)

lemma trace_twspi_send: "trace (twspi_send w v s) = trace s @ send_events w v"
proof -
  have "map (\<lambda>k. send_cycle w (bit (push_bit k v) 7)) [0..<8] =
      map (\<lambda>k. send_cycle w (bit v (7 - k))) [0..<8]"
    by (rule map_cong) (simp_all add: bit7_shifted)
  then show ?thesis
    by (simp only: twspi_send_fold trace_fold_send_bit send_events_def)
qed

lemma length_send_events: "length (send_events w v) = 40"
  by (simp add: send_events_def send_cycle_def length_concat comp_def sum_list_triv)

lemma trace_fold_twspi_send:
  "trace (fold (twspi_send w) vs s) = trace s @ concat (map (send_events w) vs)"
  by (induction vs arbitrary: s) (simp_all add: trace_twspi_send)

lemma DDR_fold_twspi_send: "DDR (fold (twspi_send w) vs s) = DDR s"
  by (induction vs arbitrary: s) (simp_all add: twspi_send_frame)

lemma PORT_send_bit:
  assumes "CLK w < 8" and "DATA w < 8"
  shows "bit (PORT (twspi_send_bit w c s)) j =
    (if j = CLK w then True else if j = DATA w then bit c 7 else bit (PORT s) j)"
  using assms
  by (auto simp add: twspi_send_bit_def stmt_defs msb_test bit_ops dest: bit_imp_le_length)

lemma PORT_fold_send_bit:
  assumes "CLK w < 8" and "DATA w < 8"
  shows "ks \<noteq> [] \<Longrightarrow> bit (PORT (fold (\<lambda>k. twspi_send_bit w (f k)) ks s)) j =
    (if j = CLK w then True else if j = DATA w then bit (f (last ks)) 7
     else bit (PORT s) j)"
proof (induction ks arbitrary: s)
  case Nil
  then show ?case by simp
next
  case (Cons k ks)
  show ?case
  proof (cases "ks = []")
    case True
    then show ?thesis by (simp add: PORT_send_bit [OF assms])
  next
    case False
    then show ?thesis
      by (simp add: Cons.IH PORT_send_bit [OF assms])
  qed
qed

lemma PORT_twspi_send:
  assumes "CLK w < 8" and "DATA w < 8"
  shows "bit (PORT (twspi_send w v s)) j =
    (if j = CLK w then True else if j = DATA w then bit v 0 else bit (PORT s) j)"
proof -
  have ne: "[0..<8] \<noteq> []" by simp
  have l: "last [0..<8] = 7" by (simp add: upt_rec)
  have b: "bit (push_bit 7 v) 7 = bit v 0"
    by (simp add: bit7_shifted)
  show ?thesis
    using PORT_fold_send_bit [OF assms ne, of "\<lambda>k. push_bit k v" s j]
    by (simp only: twspi_send_fold l b)
qed

text \<open>The port during the waits of the send loop.\<close>

lemma bit_drive: "bit (drive n b P) j = (if j = n \<and> n < 8 then b else bit P j)"
  by (auto simp add: drive_def bit_ops dest: bit_imp_le_length)

lemma drive_drive_same: "drive n b (drive n b' P) = drive n b P"
  by (rule bit_eqI) (simp add: bit_drive)

lemma drive_low_again:
  "c \<noteq> d \<Longrightarrow>
   drive d b (drive c False (drive c True (drive d b' P))) = drive d b (drive c False P)"
  by (rule bit_eqI) (simp add: bit_drive)

lemma drive_high_again:
  "c \<noteq> d \<Longrightarrow>
   drive c True (drive d b (drive c True (drive d b' P))) = drive c True (drive d b P)"
  by (rule bit_eqI) (simp add: bit_drive)

lemma drive_high_low:
  "c \<noteq> d \<Longrightarrow> drive c True (drive d b (drive c False P)) = drive c True (drive d b P)"
  by (rule bit_eqI) (simp add: bit_drive)

lemma PORT_send_bit_drive:
  "CLK w \<noteq> DATA w \<Longrightarrow>
   PORT (twspi_send_bit w c s) = drive (CLK w) True (drive (DATA w) (bit c 7) (PORT s))"
proof -
  assume ne: "CLK w \<noteq> DATA w"
  have "PORT (twspi_send_bit w c s) =
      drive (CLK w) True (drive (DATA w) (bit c 7) (drive (CLK w) False (PORT s)))"
    by (simp add: twspi_send_bit_def stmt_defs msb_test drive_def)
  then show ?thesis by (simp only: drive_high_low [OF ne])
qed

lemma held_send_bit:
  "CLK w \<noteq> DATA w \<Longrightarrow>
   held (twspi_send_bit w c s) = held s @
     [(drive (DATA w) (bit c 7) (drive (CLK w) False (PORT s)), 1),
      (drive (CLK w) True (drive (DATA w) (bit c 7) (PORT s)), 1)]"
proof -
  assume ne: "CLK w \<noteq> DATA w"
  have "held (twspi_send_bit w c s) = held s @
     [(drive (DATA w) (bit c 7) (drive (CLK w) False (PORT s)), 1),
      (drive (CLK w) True (drive (DATA w) (bit c 7) (drive (CLK w) False (PORT s))), 1)]"
    by (simp add: twspi_send_bit_def stmt_defs msb_test drive_def)
  then show ?thesis by (simp only: drive_high_low [OF ne])
qed

lemma held_fold_send_bit:
  assumes "CLK w \<noteq> DATA w"
  shows "held (fold (\<lambda>k. twspi_send_bit w (f k)) ks s) = held s @ concat (map
    (\<lambda>k. [(drive (DATA w) (bit (f k) 7) (drive (CLK w) False (PORT s)), 1),
          (drive (CLK w) True (drive (DATA w) (bit (f k) 7) (PORT s)), 1)]) ks)"
proof (induction ks arbitrary: s)
  case Nil
  show ?case by simp
next
  case (Cons k ks)
  show ?case
    by (simp add: Cons.IH held_send_bit [OF assms] PORT_send_bit_drive [OF assms]
        drive_low_again [OF assms] drive_high_again [OF assms])
qed

lemma PORT_fold_send_bit_drive:
  assumes "CLK w \<noteq> DATA w"
  shows "ks \<noteq> [] \<Longrightarrow> PORT (fold (\<lambda>k. twspi_send_bit w (f k)) ks s) =
    drive (CLK w) True (drive (DATA w) (bit (f (last ks)) 7) (PORT s))"
proof (induction ks arbitrary: s)
  case Nil
  then show ?case by simp
next
  case (Cons k ks)
  show ?case
  proof (cases "ks = []")
    case True
    then show ?thesis by (simp add: PORT_send_bit_drive [OF assms])
  next
    case False
    then show ?thesis
      by (simp add: Cons.IH PORT_send_bit_drive [OF assms] drive_high_again [OF assms])
  qed
qed

lemma held_twspi_send:
  assumes "CLK w \<noteq> DATA w"
  shows "held (twspi_send w v s) = held s @ concat (map
    (\<lambda>k. [(drive (DATA w) (bit v (7 - k)) (drive (CLK w) False (PORT s)), 1),
          (drive (CLK w) True (drive (DATA w) (bit v (7 - k)) (PORT s)), 1)]) [0..<8])"
proof -
  have "map (\<lambda>k. [(drive (DATA w) (bit (push_bit k v) 7) (drive (CLK w) False (PORT s)),
          1 :: nat),
        (drive (CLK w) True (drive (DATA w) (bit (push_bit k v) 7) (PORT s)), 1)]) [0..<8] =
      map (\<lambda>k. [(drive (DATA w) (bit v (7 - k)) (drive (CLK w) False (PORT s)), 1),
        (drive (CLK w) True (drive (DATA w) (bit v (7 - k)) (PORT s)), 1)]) [0..<8]"
    by (rule map_cong) (simp_all add: bit7_shifted)
  then show ?thesis
    by (simp only: twspi_send_fold held_fold_send_bit [OF assms])
qed

lemma PORT_twspi_send_drive:
  assumes "CLK w \<noteq> DATA w"
  shows "PORT (twspi_send w v s) = drive (CLK w) True (drive (DATA w) (bit v 0) (PORT s))"
proof -
  have ne: "[0..<8] \<noteq> []" by simp
  have l: "last [0..<8] = 7" by (simp add: upt_rec)
  have b: "bit (push_bit 7 v) 7 = bit v 0"
    by (simp add: bit7_shifted)
  show ?thesis
    using PORT_fold_send_bit_drive [OF assms ne, of "\<lambda>k. push_bit k v" s]
    by (simp only: twspi_send_fold l b)
qed

subsection \<open>The receive loop\<close>

lemma get_bit_fst:
  "fst (twspi_get_bit w d s) =
     (if bit (pin_in s (reads s)) (DATA w) then push_bit 1 d OR 1 else push_bit 1 d)"
  by (simp add: twspi_get_bit_def stmt_defs Let_def and_BV_eq_0)

lemma get_bit_snd:
  "reads (snd (twspi_get_bit w d s)) = reads s + 1"
  "pin_in (snd (twspi_get_bit w d s)) = pin_in s"
  "sram (snd (twspi_get_bit w d s)) = sram s"
  "DDR (snd (twspi_get_bit w d s)) = DDR s"
  "PCICR (snd (twspi_get_bit w d s)) = PCICR s"
  "PCMSK0 (snd (twspi_get_bit w d s)) = PCMSK0 s"
  "PORT (snd (twspi_get_bit w d s)) = PORT s AND NOT (BV (CLK w)) OR BV (CLK w)"
  "trace (snd (twspi_get_bit w d s)) = trace s @ get_cycle w (pin_in s (reads s))"
  by (simp_all add: twspi_get_bit_def stmt_defs Let_def get_cycle_def)

lemma get_loop_funpow:
  "unat i + n = 8 \<Longrightarrow>
   twspi_get_loop w i d s = (case_prod (twspi_get_bit w) ^^ n) (d, s)"
proof (induction n arbitrary: i d s)
  case 0
  then have "\<not> i < 8" by (simp add: word_less_nat_alt)
  then show ?case by (subst twspi_get_loop.simps) simp
next
  case (Suc n)
  then have lt: "i < 8" by (simp add: word_less_nat_alt)
  from Suc.prems have "unat (i + 1) + n = 8"
    by (simp add: unat_word_ariths)
  note IH = Suc.IH [OF this]
  obtain d' s' where step: "twspi_get_bit w d s = (d', s')"
    by (cases "twspi_get_bit w d s")
  have "twspi_get_loop w i d s = twspi_get_loop w (i + 1) d' s'"
    using lt step by (subst twspi_get_loop.simps) simp
  also have "\<dots> = (case_prod (twspi_get_bit w) ^^ n) (d', s')"
    by (rule IH)
  also have "\<dots> = (case_prod (twspi_get_bit w) ^^ Suc n) (d, s)"
    by (simp only: funpow_Suc_right comp_def case_prod_conv step)
  finally show ?case .
qed

lemma twspi_get_funpow: "twspi_get w s = (case_prod (twspi_get_bit w) ^^ 8) (0, s)"
  unfolding twspi_get_def by (rule get_loop_funpow) simp

lemma funpow_prod_Suc:
  "(case_prod f ^^ Suc n) x = f (fst ((case_prod f ^^ n) x)) (snd ((case_prod f ^^ n) x))"
  by (simp add: case_prod_beta)

lemma funpow_get_frame:
  "reads (snd ((case_prod (twspi_get_bit w) ^^ n) (d, s))) = reads s + n
   \<and> pin_in (snd ((case_prod (twspi_get_bit w) ^^ n) (d, s))) = pin_in s
   \<and> sram (snd ((case_prod (twspi_get_bit w) ^^ n) (d, s))) = sram s
   \<and> DDR (snd ((case_prod (twspi_get_bit w) ^^ n) (d, s))) = DDR s
   \<and> PCICR (snd ((case_prod (twspi_get_bit w) ^^ n) (d, s))) = PCICR s
   \<and> PCMSK0 (snd ((case_prod (twspi_get_bit w) ^^ n) (d, s))) = PCMSK0 s"
  by (induction n) (simp_all add: funpow_prod_Suc get_bit_snd del: funpow.simps(2))

lemma funpow_get_trace:
  "trace (snd ((case_prod (twspi_get_bit w) ^^ n) (d, s))) =
     trace s @ concat (map (\<lambda>k. get_cycle w (pin_in s (reads s + k))) [0..<n])"
  by (induction n)
    (simp_all add: funpow_prod_Suc get_bit_snd funpow_get_frame del: funpow.simps(2))

lemma funpow_get_PORT:
  "PORT (snd ((case_prod (twspi_get_bit w) ^^ Suc n) (d, s))) = PORT s OR BV (CLK w)"
proof (induction n)
  case 0
  show ?case
    by (simp add: funpow_prod_Suc get_bit_snd bit_eq_iff bit_ops del: funpow.simps(2))
      blast
next
  case (Suc n)
  have "PORT (snd ((case_prod (twspi_get_bit w) ^^ Suc (Suc n)) (d, s))) =
      PORT (snd ((case_prod (twspi_get_bit w) ^^ Suc n) (d, s)))
        AND NOT (BV (CLK w)) OR BV (CLK w)"
    by (simp add: funpow_prod_Suc [where n = "Suc n"] get_bit_snd del: funpow.simps(2))
  also have "\<dots> = PORT s OR BV (CLK w)"
    unfolding Suc.IH by (simp add: bit_eq_iff bit_ops) blast
  finally show ?case .
qed

lemma funpow_get_data:
  "bit (fst ((case_prod (twspi_get_bit w) ^^ n) (d, s))) j =
     (j < 8 \<and> (if j < n then bit (pin_in s (reads s + (n - 1 - j))) (DATA w)
                else bit d (j - n)))"
proof (induction n arbitrary: j)
  case 0
  show ?case by (auto dest: bit_imp_le_length)
next
  case (Suc n)
  let ?p = "(case_prod (twspi_get_bit w) ^^ n) (d, s)"
  have step: "fst ((case_prod (twspi_get_bit w) ^^ Suc n) (d, s)) =
      (if bit (pin_in s (reads s + n)) (DATA w) then push_bit 1 (fst ?p) OR 1
       else push_bit 1 (fst ?p))"
    by (simp add: funpow_prod_Suc get_bit_fst funpow_get_frame
        del: push_bit_Suc funpow.simps(2))
  show ?case
  proof (cases j)
    case 0
    then show ?thesis
      unfolding step by (simp add: bit_or_iff bit_push_bit_iff del: push_bit_Suc)
  next
    case (Suc j')
    then show ?thesis
      unfolding step
      by (auto simp add: bit_or_iff bit_push_bit_iff Suc.IH bit_1_iff
          simp del: push_bit_Suc)
  qed
qed

lemma twspi_get_data:
  "bit (fst (twspi_get w s)) j = (j < 8 \<and> bit (pin_in s (reads s + (7 - j))) (DATA w))"
  by (simp only: twspi_get_funpow funpow_get_data) auto

lemma twspi_get_frame:
  "reads (snd (twspi_get w s)) = reads s + 8"
  "pin_in (snd (twspi_get w s)) = pin_in s"
  "sram (snd (twspi_get w s)) = sram s"
  "DDR (snd (twspi_get w s)) = DDR s"
  "PCICR (snd (twspi_get w s)) = PCICR s"
  "PCMSK0 (snd (twspi_get w s)) = PCMSK0 s"
  by (simp_all only: twspi_get_funpow funpow_get_frame)

lemma twspi_get_trace:
  "trace (snd (twspi_get w s)) =
     trace s @ concat (map (\<lambda>k. get_cycle w (pin_in s (reads s + k))) [0..<8])"
  by (simp only: twspi_get_funpow funpow_get_trace)

lemma twspi_get_PORT: "PORT (snd (twspi_get w s)) = PORT s OR BV (CLK w)"
proof -
  have "(8::nat) = Suc 7" by simp
  then show ?thesis
    by (simp only: twspi_get_funpow funpow_get_PORT)
qed

lemma get_bit_sram:
  "twspi_get_bit w d (s\<lparr>sram := m\<rparr>) =
     (fst (twspi_get_bit w d s), (snd (twspi_get_bit w d s))\<lparr>sram := m\<rparr>)"
  by (simp add: twspi_get_bit_def stmt_defs Let_def)

lemma funpow_get_sram:
  "(case_prod (twspi_get_bit w) ^^ n) (d, s\<lparr>sram := m\<rparr>) =
     (fst ((case_prod (twspi_get_bit w) ^^ n) (d, s)),
      (snd ((case_prod (twspi_get_bit w) ^^ n) (d, s)))\<lparr>sram := m\<rparr>)"
proof (induction n)
  case 0
  show ?case by simp
next
  case (Suc n)
  show ?case
    by (simp only: funpow_prod_Suc Suc.IH fst_conv snd_conv get_bit_sram)
qed

lemma twspi_get_sram:
  "twspi_get w (s\<lparr>sram := m\<rparr>) =
     (fst (twspi_get w s), (snd (twspi_get w s))\<lparr>sram := m\<rparr>)"
  by (simp only: twspi_get_funpow funpow_get_sram)

text \<open>The port during the waits of the receive loop.\<close>

lemma drive_True_False: "drive n True (drive n False P) = drive n True P"
  by (rule drive_drive_same)

lemma get_bit_drive:
  "PORT (snd (twspi_get_bit w d s)) = drive (CLK w) True (PORT s)"
  "held (snd (twspi_get_bit w d s)) = held s @
     [(drive (CLK w) False (PORT s), 1), (drive (CLK w) True (PORT s), 1)]"
proof -
  have "PORT (snd (twspi_get_bit w d s)) = drive (CLK w) True (drive (CLK w) False (PORT s))"
    by (simp add: twspi_get_bit_def stmt_defs Let_def drive_def)
  then show "PORT (snd (twspi_get_bit w d s)) = drive (CLK w) True (PORT s)"
    by (simp only: drive_drive_same)
  have "held (snd (twspi_get_bit w d s)) = held s @
     [(drive (CLK w) False (PORT s), 1),
      (drive (CLK w) True (drive (CLK w) False (PORT s)), 1)]"
    by (simp add: twspi_get_bit_def stmt_defs Let_def drive_def)
  then show "held (snd (twspi_get_bit w d s)) = held s @
     [(drive (CLK w) False (PORT s), 1), (drive (CLK w) True (PORT s), 1)]"
    by (simp only: drive_drive_same)
qed

lemma funpow_get_PORT_drive:
  "PORT (snd ((case_prod (twspi_get_bit w) ^^ n) (d, s))) =
     (if n = 0 then PORT s else drive (CLK w) True (PORT s))"
  by (induction n)
    (simp_all add: funpow_prod_Suc get_bit_drive drive_drive_same del: funpow.simps(2))

lemma funpow_get_held:
  "held (snd ((case_prod (twspi_get_bit w) ^^ n) (d, s))) = held s @ concat (replicate n
     [(drive (CLK w) False (PORT s), 1), (drive (CLK w) True (PORT s), 1)])"
proof (induction n)
  case 0
  show ?case by simp
next
  case (Suc n)
  have "concat (replicate (Suc n) x) = concat (replicate n x) @ x" for x :: "(u8 \<times> nat) list"
    by (induction n) simp_all
  then show ?case
    by (simp add: funpow_prod_Suc get_bit_drive funpow_get_PORT_drive Suc.IH
        drive_drive_same del: funpow.simps(2) replicate_Suc)
qed

lemma twspi_get_held:
  "held (snd (twspi_get w s)) = held s @ concat (replicate 8
     [(drive (CLK w) False (PORT s), 1), (drive (CLK w) True (PORT s), 1)])"
  by (simp only: twspi_get_funpow funpow_get_held)

lemma twspi_get_PORT_drive:
  "PORT (snd (twspi_get w s)) = drive (CLK w) True (PORT s)"
  by (simp add: twspi_get_PORT drive_def)

subsection \<open>The buffer loops\<close>

lemma send_buf_last: "twspi_send_buf w buf 1 s = twspi_send w (sram s buf) s"
  by (subst twspi_send_buf.simps) (simp add: Let_def)

lemma send_buf_step:
  "len \<noteq> 1 \<Longrightarrow> twspi_send_buf w buf len s =
     twspi_send_buf w (buf + 1) (len - 1) (twspi_send w (sram s buf) s)"
  by (subst twspi_send_buf.simps) (simp add: Let_def)

lemma send_buf_iter:
  "0 < n \<Longrightarrow> n \<le> 256 \<Longrightarrow>
   twspi_send_buf w buf (of_nat n) s =
     fold (twspi_send w) (map (\<lambda>k. sram s (buf + k)) [0..<n]) s"
proof (induction n arbitrary: buf s)
  case 0
  then show ?case by simp
next
  case (Suc m)
  show ?case
  proof (cases "m = 0")
    case True
    then show ?thesis by (simp add: send_buf_last)
  next
    case False
    with Suc.prems have ne: "(of_nat (Suc m) :: u8) \<noteq> 1"
      by (intro of_nat_u8_eq_1) simp_all
    let ?s' = "twspi_send w (sram s buf) s"
    from False Suc.prems have m: "0 < m" "m \<le> 256" by simp_all
    have "twspi_send_buf w buf (of_nat (Suc m)) s =
        twspi_send_buf w (buf + 1) (of_nat m) ?s'"
      using send_buf_step [OF ne] by simp
    also have "\<dots> = fold (twspi_send w) (map (\<lambda>k. sram s (buf + 1 + k)) [0..<m]) ?s'"
      by (simp only: Suc.IH [OF m] twspi_send_frame)
    also have "\<dots> = fold (twspi_send w) (map (\<lambda>k. sram s (buf + k)) [0..<Suc m]) s"
      by (simp only: fold_map fold_upt_Suc [where m = m]) (simp add: comp_def)
    finally show ?thesis .
  qed
qed

lemma store_bytes_Cons:
  "store_bytes (Suc buf) vs (m(buf := v)) = store_bytes buf (v # vs) m"
  by (rule ext) (auto simp: store_bytes_def nth_Cons' Suc_diff_Suc)

lemma store_bytes_single: "m(buf := v) = store_bytes buf [v] m"
  by (rule ext) (auto simp: store_bytes_def)

lemma getBuffer_spec_sram:
  "getBuffer_spec w n (s\<lparr>sram := m\<rparr>) =
     (fst (getBuffer_spec w n s), (snd (getBuffer_spec w n s))\<lparr>sram := m\<rparr>)"
proof (induction n arbitrary: s)
  case 0
  show ?case by simp
next
  case (Suc n)
  show ?case
    by (simp add: twspi_get_sram Suc.IH case_prod_beta Let_def)
qed

lemma getBuffer_spec_frame:
  "length (fst (getBuffer_spec w n s)) = n
   \<and> reads (snd (getBuffer_spec w n s)) = reads s + 8 * n
   \<and> pin_in (snd (getBuffer_spec w n s)) = pin_in s
   \<and> sram (snd (getBuffer_spec w n s)) = sram s"
  by (induction n arbitrary: s) (simp_all add: case_prod_beta Let_def twspi_get_frame)

lemma getBuffer_spec_nth:
  "j < n \<Longrightarrow> bit (fst (getBuffer_spec w n s) ! j) i =
     (i < 8 \<and> bit (pin_in s (reads s + 8 * j + (7 - i))) (DATA w))"
proof (induction n arbitrary: s j)
  case 0
  then show ?case by simp
next
  case (Suc n)
  show ?case
  proof (cases j)
    case 0
    then show ?thesis
      by (simp add: case_prod_beta Let_def twspi_get_data)
  next
    case (Suc j')
    with Suc.prems have "j' < n" by simp
    from Suc.IH [OF this, of "snd (twspi_get w s)"] Suc show ?thesis
      by (simp add: case_prod_beta Let_def twspi_get_frame add.assoc)
  qed
qed

lemma get_buf_last:
  "twspi_get_buf w buf 1 s =
     (snd (twspi_get w s))\<lparr>sram := (sram s)(buf := fst (twspi_get w s))\<rparr>"
  by (subst twspi_get_buf.simps) (simp add: Let_def case_prod_beta twspi_get_frame)

lemma get_buf_step:
  "len \<noteq> 1 \<Longrightarrow> twspi_get_buf w buf len s =
     twspi_get_buf w (buf + 1) (len - 1)
       ((snd (twspi_get w s))\<lparr>sram := (sram s)(buf := fst (twspi_get w s))\<rparr>)"
  by (subst twspi_get_buf.simps) (simp add: Let_def case_prod_beta twspi_get_frame)

lemma get_buf_iter:
  "0 < n \<Longrightarrow> n \<le> 256 \<Longrightarrow>
   twspi_get_buf w buf (of_nat n) s =
     (snd (getBuffer_spec w n s))
       \<lparr>sram := store_bytes buf (fst (getBuffer_spec w n s)) (sram s)\<rparr>"
proof (induction n arbitrary: buf s)
  case 0
  then show ?case by simp
next
  case (Suc m)
  let ?v = "fst (twspi_get w s)" and ?s1 = "snd (twspi_get w s)"
  show ?case
  proof (cases "m = 0")
    case True
    then show ?thesis
      by (simp add: get_buf_last case_prod_beta Let_def store_bytes_single)
  next
    case False
    with Suc.prems have ne: "(of_nat (Suc m) :: u8) \<noteq> 1"
      by (intro of_nat_u8_eq_1) simp_all
    from False Suc.prems have m: "0 < m" "m \<le> 256" by simp_all
    let ?s' = "?s1\<lparr>sram := (sram s)(buf := ?v)\<rparr>"
    have "twspi_get_buf w buf (of_nat (Suc m)) s =
        twspi_get_buf w (buf + 1) (of_nat m) ?s'"
      using get_buf_step [OF ne] by simp
    also have "\<dots> = (snd (getBuffer_spec w m ?s'))
        \<lparr>sram := store_bytes (buf + 1) (fst (getBuffer_spec w m ?s')) (sram ?s')\<rparr>"
      by (rule Suc.IH [OF m])
    also have "\<dots> = (snd (getBuffer_spec w m ?s1))
        \<lparr>sram := store_bytes buf (?v # fst (getBuffer_spec w m ?s1)) (sram s)\<rparr>"
      by (simp add: getBuffer_spec_sram store_bytes_Cons)
    also have "\<dots> = (snd (getBuffer_spec w (Suc m) s))
        \<lparr>sram := store_bytes buf (fst (getBuffer_spec w (Suc m) s)) (sram s)\<rparr>"
      by (simp add: case_prod_beta Let_def)
    finally show ?thesis .
  qed
qed

lemma sram_get_buf_outside:
  "0 < n \<Longrightarrow> n \<le> 256 \<Longrightarrow> a < buf \<or> buf + n \<le> a \<Longrightarrow>
   sram (twspi_get_buf w buf (of_nat n) s) a = sram s a"
  by (auto simp add: get_buf_iter store_bytes_def getBuffer_spec_frame)

lemma sram_get_buf_inside:
  "0 < n \<Longrightarrow> n \<le> 256 \<Longrightarrow> j < n \<Longrightarrow>
   bit (sram (twspi_get_buf w buf (of_nat n) s) (buf + j)) i =
     (i < 8 \<and> bit (pin_in s (reads s + 8 * j + (7 - i))) (DATA w))"
  by (simp add: get_buf_iter store_bytes_def getBuffer_spec_frame getBuffer_spec_nth)

lemma bits_3C: "i < 8 \<Longrightarrow> bit (rx_3C_FF (7 - i)) (Suc 0) = bit (0x3C :: u8) i"
proof -
  assume "i < 8"
  then have "i \<in> {0, 1, 2, 3, 4, 5, 6, 7}" by auto
  then show ?thesis
    by (elim insertE emptyE) (simp_all add: rx_3C_FF_def)
qed

lemma wiredD:
  assumes "wired w"
  shows "CLK w < 8" "DATA w < 8" "SEL w < 8" "SW w < 8"
    "SEL w \<noteq> CLK w" "SEL w \<noteq> DATA w" "SW w \<noteq> CLK w" "SW w \<noteq> DATA w"
  using assms by (auto simp: wired_def)

section \<open>Pin setup, power and wake-up\<close>

text \<open>
  C9. Whatever the direction register holds before, after \<^verbatim>\<open>twspi_disable\<close> the
  direction bits of Select, Clock and PowerSwitch are clear: the three lines are inputs.
  Nothing is assumed of the state, so it does not matter whether \<^verbatim>\<open>twspi_init\<close> ran.
\<close>

theorem twspi_disable_makes_inputs:
  "\<not> bit (DDR (twspi_disable w s)) (SEL w) \<and>
   \<not> bit (DDR (twspi_disable w s)) (CLK w) \<and>
   \<not> bit (DDR (twspi_disable w s)) (SW w)"
  by (simp add: twspi_disable_def stmt_defs bit_ops)

theorem twspi_disable_makes_inputs_witness:
  "\<not> bit (DDR (twspi_disable board (twspi_init board mcu0))) 0 \<and>
   \<not> bit (DDR (twspi_disable board (twspi_init board mcu0))) 2 \<and>
   \<not> bit (DDR (twspi_disable board (twspi_init board mcu0))) 3 \<and>
   DDR (twspi_init board mcu0) = 13"
  using twspi_disable_makes_inputs [of board "twspi_init board mcu0"]
  by (simp add: board_def mcu0_def twspi_init_def stmt_defs BV_def)

text \<open>
  C8. \<^verbatim>\<open>rcs926_rf_present\<close> reads the input register once and returns true exactly when
  the FieldDetect bit of the value read is clear (the line is low), false when it is set.
\<close>

theorem rcs926_rf_present_iff_low:
  "fst (rcs926_rf_present w s) = (\<not> bit (pin_in s (reads s)) (RFDET w))"
  by (simp add: rcs926_rf_present_def read_pin_def Let_def and_BV_eq_0)

theorem rcs926_rf_present_iff_low_witness:
  "fst (rcs926_rf_present board (mcu0\<lparr>pin_in := (\<lambda>k. 0x20)\<rparr>)) = False \<and>
   fst (rcs926_rf_present board (mcu0\<lparr>pin_in := (\<lambda>k. 0xDF)\<rparr>)) = True"
  using rcs926_rf_present_iff_low [of board "mcu0\<lparr>pin_in := (\<lambda>k. 0x20)\<rparr>"]
    rcs926_rf_present_iff_low [of board "mcu0\<lparr>pin_in := (\<lambda>k. 0xDF)\<rparr>"]
  by (simp add: board_def mcu0_def)



text \<open>
  C5. After \<^verbatim>\<open>rcs926_wake_up_on_rf(true)\<close>, \<^verbatim>\<open>rcs926_wake_up_on_irq(true)\<close>,
  \<^verbatim>\<open>rcs926_wake_up_on_rf(false)\<close> the mask bit PCINT4 of the data-ready source and the
  shared enable bit PCIE0 are set. Disabling either source leaves PCICR as it was and
  clears, in PCMSK0, the mask bit of that source and no other bit.
\<close>

theorem wake_up_disable_keeps_other_source:
  assumes "PCINT4 w \<noteq> PCINT5 w" and "PCINT4 w < 8" and "PCIE0 w < 8"
  shows "bit (PCMSK0 (rcs926_wake_up_on_rf w False
             (rcs926_wake_up_on_irq w True (rcs926_wake_up_on_rf w True s)))) (PCINT4 w)
    \<and> bit (PCICR (rcs926_wake_up_on_rf w False
             (rcs926_wake_up_on_irq w True (rcs926_wake_up_on_rf w True s)))) (PCIE0 w)
    \<and> PCICR (rcs926_wake_up_on_rf w False s) = PCICR s
    \<and> PCICR (rcs926_wake_up_on_irq w False s) = PCICR s
    \<and> (\<forall>k. bit (PCMSK0 (rcs926_wake_up_on_rf w False s)) k =
          (bit (PCMSK0 s) k \<and> k \<noteq> PCINT5 w))
    \<and> (\<forall>k. bit (PCMSK0 (rcs926_wake_up_on_irq w False s)) k =
          (bit (PCMSK0 s) k \<and> k \<noteq> PCINT4 w))"
  using assms
  by (auto simp add: rcs926_wake_up_on_rf_def rcs926_wake_up_on_irq_def stmt_defs bit_ops
      dest: bit_imp_le_length)

theorem wake_up_disable_keeps_other_source_witness:
  "PCINT4 board \<noteq> PCINT5 board \<and> PCINT4 board < 8 \<and> PCIE0 board < 8
    \<and> PCMSK0 (rcs926_wake_up_on_rf board False
         (rcs926_wake_up_on_irq board True (rcs926_wake_up_on_rf board True mcu0))) = 0x10
    \<and> PCICR (rcs926_wake_up_on_rf board False
         (rcs926_wake_up_on_irq board True (rcs926_wake_up_on_rf board True mcu0))) = 1
    \<and> bit (0x10 :: u8) (PCINT4 board) \<and> bit (1 :: u8) (PCIE0 board)"
proof -
  have h: "PCINT4 board \<noteq> PCINT5 board" "PCINT4 board < 8" "PCIE0 board < 8"
    by (simp_all add: board_def)
  have "BV (PCIE0 board) = 1" "BV (PCINT4 board) = 0x10" "BV (PCINT5 board) = 0x20"
    by (simp_all add: board_def BV_def)
  with wake_up_disable_keeps_other_source [OF h, of mcu0] h show ?thesis
    by (simp add: mcu0_def rcs926_wake_up_on_rf_def rcs926_wake_up_on_irq_def stmt_defs
        board_def)
qed

section \<open>Switching the bus direction\<close>

text \<open>
  C4. From every state, after \<^verbatim>\<open>twspi_begin_send\<close> the direction bit of Data is set
  (output) and the port bit of Select is clear (low), and the statements it executed are,
  in this order: Select low, a wait of 1 microsecond, Data to output. After
  \<^verbatim>\<open>twspi_end_send\<close> the direction bit of Data is clear (input) and the port bit of
  Select is set (high), and its statements are, in this order: a wait, Data to input, a
  wait, Select high.
\<close>

theorem begin_end_send_direction:
  assumes "SEL w < 8" and "DATA w < 8"
  shows "bit (DDR (twspi_begin_send w s)) (DATA w)
    \<and> \<not> bit (PORT (twspi_begin_send w s)) (SEL w)
    \<and> trace (twspi_begin_send w s) =
        trace s @ [AndEq R_PORT (NOT (BV (SEL w))), Delay 1, OrEq R_DDR (BV (DATA w))]
    \<and> \<not> bit (DDR (twspi_end_send w s)) (DATA w)
    \<and> bit (PORT (twspi_end_send w s)) (SEL w)
    \<and> trace (twspi_end_send w s) =
        trace s @ [Delay 1, AndEq R_DDR (NOT (BV (DATA w))), Delay 1,
          OrEq R_PORT (BV (SEL w))]"
  using assms by (simp add: twspi_begin_send_def twspi_end_send_def stmt_defs bit_ops)

theorem begin_end_send_direction_witness:
  "SEL board < 8 \<and> DATA board < 8
    \<and> DDR (twspi_begin_send board (mcu0\<lparr>PORT := 0xFF\<rparr>)) = 2
    \<and> PORT (twspi_begin_send board (mcu0\<lparr>PORT := 0xFF\<rparr>)) = 0xFE
    \<and> DDR (twspi_end_send board (twspi_begin_send board (mcu0\<lparr>PORT := 0xFF\<rparr>))) = 0
    \<and> PORT (twspi_end_send board (twspi_begin_send board (mcu0\<lparr>PORT := 0xFF\<rparr>))) = 0xFF
    \<and> trace (twspi_end_send board (twspi_begin_send board (mcu0\<lparr>PORT := 0xFF\<rparr>))) =
        [AndEq R_PORT 0xFE, Delay 1, OrEq R_DDR 2,
         Delay 1, AndEq R_DDR 0xFD, Delay 1, OrEq R_PORT 1]"
proof -
  have h: "SEL board < 8" "DATA board < 8"
    by (simp_all add: board_def)
  have "BV (SEL board) = 1" "BV (DATA board) = 2" "NOT (BV (SEL board)) = 0xFE"
    "NOT (BV (DATA board)) = 0xFD"
    by (simp_all add: board_def BV_def)
  with begin_end_send_direction [OF h, of "mcu0\<lparr>PORT := 0xFF\<rparr>"] h show ?thesis
    by (simp add: mcu0_def twspi_begin_send_def twspi_end_send_def stmt_defs)
qed

section \<open>Byte transfers\<close>

text \<open>
  C1. Under a wiring that gives Clock and Data bits of their own, \<^verbatim>\<open>twspi_send\<close> executes,
  for every byte \<open>v\<close>, exactly eight clock cycles and nothing else. The cycle number \<open>k\<close>
  (from 0) drives Clock low, sets Data to bit \<open>7 - k\<close> of \<open>v\<close> (the most significant bit
  first), waits 1 microsecond, drives Clock high and waits 1 microsecond. During the
  first wait of cycle \<open>k\<close> the port has the Clock bit low and the Data bit equal to bit
  \<open>7 - k\<close> of \<open>v\<close>, during the second wait the Clock bit is high and the Data bit still
  that bit; all other port bits are as before the call. On return the Clock bit is high
  and the Data bit is bit 0 of \<open>v\<close>.
\<close>

theorem twspi_send_msb_first:
  assumes "CLK w < 8" and "DATA w < 8" and "CLK w \<noteq> DATA w"
  shows "trace (twspi_send w v s) =
      trace s @ concat (map (\<lambda>k. send_cycle w (bit v (7 - k))) [0..<8])
    \<and> held (twspi_send w v s) = held s @ concat (map
        (\<lambda>k. [(drive (DATA w) (bit v (7 - k)) (drive (CLK w) False (PORT s)), 1),
              (drive (CLK w) True (drive (DATA w) (bit v (7 - k)) (PORT s)), 1)]) [0..<8])
    \<and> PORT (twspi_send w v s) = drive (CLK w) True (drive (DATA w) (bit v 0) (PORT s))
    \<and> (\<forall>b P j. bit (drive (DATA w) b (drive (CLK w) False P)) j =
          (if j = CLK w then False else if j = DATA w then b else bit P j))
    \<and> (\<forall>b P j. bit (drive (CLK w) True (drive (DATA w) b P)) j =
          (if j = CLK w then True else if j = DATA w then b else bit P j))"
proof (intro conjI allI)
  show "trace (twspi_send w v s) =
      trace s @ concat (map (\<lambda>k. send_cycle w (bit v (7 - k))) [0..<8])"
    using trace_twspi_send [of w v s] by (simp only: send_events_def)
  show "held (twspi_send w v s) = held s @ concat (map
      (\<lambda>k. [(drive (DATA w) (bit v (7 - k)) (drive (CLK w) False (PORT s)), 1),
            (drive (CLK w) True (drive (DATA w) (bit v (7 - k)) (PORT s)), 1)]) [0..<8])"
    by (rule held_twspi_send [OF assms(3)])
  show "PORT (twspi_send w v s) = drive (CLK w) True (drive (DATA w) (bit v 0) (PORT s))"
    by (rule PORT_twspi_send_drive [OF assms(3)])
  show "bit (drive (DATA w) b (drive (CLK w) False P)) j =
      (if j = CLK w then False else if j = DATA w then b else bit P j)" for b P j
    using assms by (simp add: bit_drive)
  show "bit (drive (CLK w) True (drive (DATA w) b P)) j =
      (if j = CLK w then True else if j = DATA w then b else bit P j)" for b P j
    using assms by (simp add: bit_drive)
qed

theorem twspi_send_msb_first_witness:
  "CLK board < 8 \<and> DATA board < 8 \<and> CLK board \<noteq> DATA board
    \<and> trace (twspi_send board 0xA5 mcu0) =
     [AndEq R_PORT 0xFB, OrEq R_PORT 2, Delay 1, OrEq R_PORT 4, Delay 1,
      AndEq R_PORT 0xFB, AndEq R_PORT 0xFD, Delay 1, OrEq R_PORT 4, Delay 1,
      AndEq R_PORT 0xFB, OrEq R_PORT 2, Delay 1, OrEq R_PORT 4, Delay 1,
      AndEq R_PORT 0xFB, AndEq R_PORT 0xFD, Delay 1, OrEq R_PORT 4, Delay 1,
      AndEq R_PORT 0xFB, AndEq R_PORT 0xFD, Delay 1, OrEq R_PORT 4, Delay 1,
      AndEq R_PORT 0xFB, OrEq R_PORT 2, Delay 1, OrEq R_PORT 4, Delay 1,
      AndEq R_PORT 0xFB, AndEq R_PORT 0xFD, Delay 1, OrEq R_PORT 4, Delay 1,
      AndEq R_PORT 0xFB, OrEq R_PORT 2, Delay 1, OrEq R_PORT 4, Delay 1]
    \<and> held (twspi_send board 0xA5 mcu0) =
     [(2, 1), (6, 1), (0, 1), (4, 1), (2, 1), (6, 1), (0, 1), (4, 1),
      (0, 1), (4, 1), (2, 1), (6, 1), (0, 1), (4, 1), (2, 1), (6, 1)]
    \<and> PORT (twspi_send board 0xA5 mcu0) = 6"
proof -
  have h: "CLK board < 8" "DATA board < 8" "CLK board \<noteq> DATA board"
    by (simp_all add: board_def)
  note t = twspi_send_msb_first [OF h, of "0xA5" mcu0]
  have v: "BV (CLK board) = 4" "NOT (BV (CLK board)) = 0xFB" "BV (DATA board) = 2"
    "NOT (BV (DATA board)) = 0xFD"
    by (simp_all add: board_def BV_def)
  have u: "[0..<8] = [0, 1, 2, 3, 4, 5, 6, 7]"
    by (simp add: upt_rec)
  have m: "trace mcu0 = []" "held mcu0 = []" "PORT mcu0 = 0"
    by (simp_all add: mcu0_def)
  have tr: "trace (twspi_send board 0xA5 mcu0) =
     [AndEq R_PORT 0xFB, OrEq R_PORT 2, Delay 1, OrEq R_PORT 4, Delay 1,
      AndEq R_PORT 0xFB, AndEq R_PORT 0xFD, Delay 1, OrEq R_PORT 4, Delay 1,
      AndEq R_PORT 0xFB, OrEq R_PORT 2, Delay 1, OrEq R_PORT 4, Delay 1,
      AndEq R_PORT 0xFB, AndEq R_PORT 0xFD, Delay 1, OrEq R_PORT 4, Delay 1,
      AndEq R_PORT 0xFB, AndEq R_PORT 0xFD, Delay 1, OrEq R_PORT 4, Delay 1,
      AndEq R_PORT 0xFB, OrEq R_PORT 2, Delay 1, OrEq R_PORT 4, Delay 1,
      AndEq R_PORT 0xFB, AndEq R_PORT 0xFD, Delay 1, OrEq R_PORT 4, Delay 1,
      AndEq R_PORT 0xFB, OrEq R_PORT 2, Delay 1, OrEq R_PORT 4, Delay 1]"
    using t [THEN conjunct1] by (simp add: u v m send_cycle_def)
  have he: "held (twspi_send board 0xA5 mcu0) =
     [(2, 1), (6, 1), (0, 1), (4, 1), (2, 1), (6, 1), (0, 1), (4, 1),
      (0, 1), (4, 1), (2, 1), (6, 1), (0, 1), (4, 1), (2, 1), (6, 1)]"
    using t [THEN conjunct2, THEN conjunct1] by (simp add: u v m drive_def)
  have po: "PORT (twspi_send board 0xA5 mcu0) = 6"
    using t [THEN conjunct2, THEN conjunct2, THEN conjunct1] by (simp add: v m drive_def)
  from h tr he po show ?thesis by (simp only: simp_thms)
qed

text \<open>
  C2. \<^verbatim>\<open>twspi_get\<close> generates eight clock cycles itself: in each it drives Clock low, waits
  1 microsecond, reads the input register, drives Clock high and waits 1 microsecond,
  so the port has the Clock bit low during the first wait and high during the second,
  all other port bits unchanged. Bit \<open>7 - k\<close> of the byte it returns is the level of the
  Data line at its \<open>k\<close>-th read: the levels are assembled most significant bit first.
  For every length other than 0, \<^verbatim>\<open>twspi_get_buf\<close> does what the specification's
  \<^verbatim>\<open>getBuffer\<close> does, that many calls of \<^verbatim>\<open>twspi_get\<close>, and stores the results in call
  order from \<open>buf\<close> upwards: byte \<open>j\<close> of the buffer is assembled from the reads
  \<open>8 * j\<close> to \<open>8 * j + 7\<close>, and no other address changes. With the Data line carrying
  0x3C and 0xFF, a call with length 2 stores 0x3C and then 0xFF.
\<close>

theorem twspi_get_msb_first:
  assumes "CLK w < 8"
  shows "trace (snd (twspi_get w s)) =
      trace s @ concat (map (\<lambda>k. get_cycle w (pin_in s (reads s + k))) [0..<8])
    \<and> held (snd (twspi_get w s)) = held s @ concat (replicate 8
        [(drive (CLK w) False (PORT s), 1), (drive (CLK w) True (PORT s), 1)])
    \<and> PORT (snd (twspi_get w s)) = drive (CLK w) True (PORT s)
    \<and> (\<forall>b P j. bit (drive (CLK w) b P) j = (if j = CLK w then b else bit P j))
    \<and> (\<forall>i. bit (fst (twspi_get w s)) i =
          (i < 8 \<and> bit (pin_in s (reads s + (7 - i))) (DATA w)))
    \<and> (len \<noteq> 0 \<longrightarrow>
        twspi_get_buf w buf len s =
          (snd (getBuffer_spec w (unat len) s))
            \<lparr>sram := store_bytes buf (fst (getBuffer_spec w (unat len) s)) (sram s)\<rparr>
        \<and> length (fst (getBuffer_spec w (unat len) s)) = unat len
        \<and> reads (twspi_get_buf w buf len s) = reads s + 8 * unat len
        \<and> (\<forall>j < unat len. \<forall>i. bit (sram (twspi_get_buf w buf len s) (buf + j)) i =
              (i < 8 \<and> bit (pin_in s (reads s + 8 * j + (7 - i))) (DATA w)))
        \<and> (\<forall>a. a < buf \<or> buf + unat len \<le> a \<longrightarrow>
              sram (twspi_get_buf w buf len s) a = sram s a))"
proof (intro conjI impI allI)
  show "trace (snd (twspi_get w s)) =
      trace s @ concat (map (\<lambda>k. get_cycle w (pin_in s (reads s + k))) [0..<8])"
    by (rule twspi_get_trace)
  show "held (snd (twspi_get w s)) = held s @ concat (replicate 8
      [(drive (CLK w) False (PORT s), 1), (drive (CLK w) True (PORT s), 1)])"
    by (rule twspi_get_held)
  show "PORT (snd (twspi_get w s)) = drive (CLK w) True (PORT s)"
    by (rule twspi_get_PORT_drive)
  show "bit (drive (CLK w) b P) j = (if j = CLK w then b else bit P j)" for b P j
    using assms by (simp add: bit_drive)
  show "bit (fst (twspi_get w s)) i =
      (i < 8 \<and> bit (pin_in s (reads s + (7 - i))) (DATA w))" for i
    by (rule twspi_get_data)
next
  assume "len \<noteq> 0"
  note n = iterations_of_len [OF this]
  show eq: "twspi_get_buf w buf len s =
      (snd (getBuffer_spec w (unat len) s))
        \<lparr>sram := store_bytes buf (fst (getBuffer_spec w (unat len) s)) (sram s)\<rparr>"
    using get_buf_iter [OF n(1) n(2), of w buf s] by (simp only: n(3))
  show "length (fst (getBuffer_spec w (unat len) s)) = unat len"
    by (simp add: getBuffer_spec_frame)
  show "reads (twspi_get_buf w buf len s) = reads s + 8 * unat len"
    by (simp only: eq) (simp add: getBuffer_spec_frame)
  show "bit (sram (twspi_get_buf w buf len s) (buf + j)) i =
      (i < 8 \<and> bit (pin_in s (reads s + 8 * j + (7 - i))) (DATA w))"
    if "j < unat len" for j i
    using sram_get_buf_inside [OF n(1) n(2) that, of w buf s i] by (simp only: n(3))
  show "sram (twspi_get_buf w buf len s) a = sram s a"
    if "a < buf \<or> buf + unat len \<le> a" for a
    using sram_get_buf_outside [OF n(1) n(2) that, of w s] by (simp only: n(3))
qed

theorem twspi_get_msb_first_witness:
  "CLK board < 8 \<and> (2 :: u8) \<noteq> 0
    \<and> sram (twspi_get_buf board 0x100 2 (mcu0\<lparr>pin_in := rx_3C_FF\<rparr>)) 0x100 = 0x3C
    \<and> sram (twspi_get_buf board 0x100 2 (mcu0\<lparr>pin_in := rx_3C_FF\<rparr>)) 0x101 = 0xFF
    \<and> reads (twspi_get_buf board 0x100 2 (mcu0\<lparr>pin_in := rx_3C_FF\<rparr>)) = 16
    \<and> fst (twspi_get board (mcu0\<lparr>pin_in := rx_3C_FF\<rparr>)) = 0x3C
    \<and> held (snd (twspi_get board (mcu0\<lparr>pin_in := rx_3C_FF\<rparr>))) =
     [(0, 1), (4, 1), (0, 1), (4, 1), (0, 1), (4, 1), (0, 1), (4, 1),
      (0, 1), (4, 1), (0, 1), (4, 1), (0, 1), (4, 1), (0, 1), (4, 1)]
    \<and> PORT (snd (twspi_get board (mcu0\<lparr>pin_in := rx_3C_FF\<rparr>))) = 4"
proof -
  let ?s = "mcu0\<lparr>pin_in := rx_3C_FF\<rparr>"
  have ck: "CLK board < 8" by (simp add: board_def)
  note t = twspi_get_msb_first [OF ck, of ?s 2 "0x100"]
  have ne: "(2 :: u8) \<noteq> 0" by simp
  have s: "reads ?s = 0" "pin_in ?s = rx_3C_FF" "DATA board = 1"
    by (simp_all add: mcu0_def board_def)
  have p: "held ?s = []" "PORT ?s = 0" "BV (CLK board) = 4"
    by (simp_all add: mcu0_def board_def BV_def)
  have he: "held (snd (twspi_get board ?s)) =
     [(0, 1), (4, 1), (0, 1), (4, 1), (0, 1), (4, 1), (0, 1), (4, 1),
      (0, 1), (4, 1), (0, 1), (4, 1), (0, 1), (4, 1), (0, 1), (4, 1)]"
    using t [THEN conjunct2, THEN conjunct1]
    by (simp add: p drive_def eval_nat_numeral)
  have po: "PORT (snd (twspi_get board ?s)) = 4"
    using t [THEN conjunct2, THEN conjunct2, THEN conjunct1] by (simp add: p drive_def)
  have byte: "bit (fst (twspi_get board ?s)) i = bit (0x3C :: u8) i" for i
    using t [THEN conjunct2, THEN conjunct2, THEN conjunct2, THEN conjunct2,
        THEN conjunct1, THEN spec, of i] bits_3C [of i]
    by (auto simp add: s dest: bit_imp_le_length)
  note c = t [THEN conjunct2, THEN conjunct2, THEN conjunct2, THEN conjunct2,
      THEN conjunct2, THEN mp, OF ne]
  have u: "unat (2 :: u8) = 2" by simp
  have b: "\<forall>j < 2. \<forall>i. bit (sram (twspi_get_buf board 0x100 2 ?s) (0x100 + j)) i =
      (i < 8 \<and> bit (rx_3C_FF (8 * j + (7 - i))) (Suc 0))"
    using c [THEN conjunct2, THEN conjunct2, THEN conjunct2, THEN conjunct1]
    by (simp add: s u)
  have r: "reads (twspi_get_buf board 0x100 2 ?s) = 16"
    using c [THEN conjunct2, THEN conjunct2, THEN conjunct1]
    by (simp add: s u)
  have "bit (sram (twspi_get_buf board 0x100 2 ?s) 0x100) i = bit (0x3C :: u8) i" for i
    using b [THEN spec, of 0] bits_3C [of i]
    by (auto dest: bit_imp_le_length)
  moreover have "bit (sram (twspi_get_buf board 0x100 2 ?s) 0x101) i = bit (0xFF :: u8) i"
    for i
  proof -
    have m: "(0xFF :: u8) = - 1" by simp
    have "bit (0xFF :: u8) i = (i < 8)"
      unfolding m by simp
    then show ?thesis
      using b [THEN spec, of 1] by (simp add: rx_3C_FF_def)
  qed
  ultimately show ?thesis
    using ck ne r byte he po by (simp add: bit_eq_iff)
qed

text \<open>
  C10. Under a wiring that gives every line its own bit, \<^verbatim>\<open>twspi_send\<close> returns with the
  Clock bit of the port set, the Data bit equal to the last bit sent, and every other
  port bit, Select and PowerSwitch among them, as before; \<^verbatim>\<open>twspi_get\<close> returns with the
  Clock bit set and every other port bit as before. Neither changes the direction
  register or the pin-change interrupt registers, so any number of byte transfers keeps
  the directions that \<^verbatim>\<open>twspi_begin_send\<close> or \<^verbatim>\<open>twspi_end_send\<close> established.
\<close>

theorem byte_transfer_frame:
  assumes "wired w"
  shows "(\<forall>j. bit (PORT (twspi_send w v s)) j =
          (if j = CLK w then True else if j = DATA w then bit v 0 else bit (PORT s) j))
    \<and> bit (PORT (twspi_send w v s)) (CLK w)
    \<and> bit (PORT (twspi_send w v s)) (SEL w) = bit (PORT s) (SEL w)
    \<and> bit (PORT (twspi_send w v s)) (SW w) = bit (PORT s) (SW w)
    \<and> DDR (twspi_send w v s) = DDR s
    \<and> PCICR (twspi_send w v s) = PCICR s
    \<and> PCMSK0 (twspi_send w v s) = PCMSK0 s
    \<and> PORT (snd (twspi_get w s)) = PORT s OR BV (CLK w)
    \<and> bit (PORT (snd (twspi_get w s))) (CLK w)
    \<and> bit (PORT (snd (twspi_get w s))) (SEL w) = bit (PORT s) (SEL w)
    \<and> bit (PORT (snd (twspi_get w s))) (SW w) = bit (PORT s) (SW w)
    \<and> DDR (snd (twspi_get w s)) = DDR s
    \<and> PCICR (snd (twspi_get w s)) = PCICR s
    \<and> PCMSK0 (snd (twspi_get w s)) = PCMSK0 s
    \<and> DDR (fold (twspi_send w) vs s) = DDR s"
proof -
  note d = wiredD [OF assms]
  note P = PORT_twspi_send [OF d(1) d(2), of v s]
  have "bit (PORT (snd (twspi_get w s))) (CLK w)"
    "bit (PORT (snd (twspi_get w s))) (SEL w) = bit (PORT s) (SEL w)"
    "bit (PORT (snd (twspi_get w s))) (SW w) = bit (PORT s) (SW w)"
    using d by (simp_all add: twspi_get_PORT bit_ops)
  moreover have "bit (PORT (twspi_send w v s)) (CLK w)"
    "bit (PORT (twspi_send w v s)) (SEL w) = bit (PORT s) (SEL w)"
    "bit (PORT (twspi_send w v s)) (SW w) = bit (PORT s) (SW w)"
    using d by (simp_all add: P)
  ultimately show ?thesis
    by (simp add: P twspi_send_frame twspi_get_frame twspi_get_PORT DDR_fold_twspi_send)
qed

theorem byte_transfer_frame_witness:
  "wired board
    \<and> bit (PORT (twspi_send board 0xA5 (mcu0\<lparr>DDR := 0x0F, PORT := 0x08\<rparr>))) 2
    \<and> bit (PORT (twspi_send board 0xA5 (mcu0\<lparr>DDR := 0x0F, PORT := 0x08\<rparr>))) 1
    \<and> \<not> bit (PORT (twspi_send board 0xA5 (mcu0\<lparr>DDR := 0x0F, PORT := 0x08\<rparr>))) 0
    \<and> bit (PORT (twspi_send board 0xA5 (mcu0\<lparr>DDR := 0x0F, PORT := 0x08\<rparr>))) 3
    \<and> DDR (twspi_send board 0xA5 (mcu0\<lparr>DDR := 0x0F, PORT := 0x08\<rparr>)) = 0x0F
    \<and> PORT (snd (twspi_get board (mcu0\<lparr>DDR := 0x0D, PORT := 0x09\<rparr>))) = 0x0D
    \<and> DDR (snd (twspi_get board (mcu0\<lparr>DDR := 0x0D, PORT := 0x09\<rparr>))) = 0x0D"
proof -
  note t1 = byte_transfer_frame [OF wired_board, of "0xA5"
      "mcu0\<lparr>DDR := 0x0F, PORT := 0x08\<rparr>" "[]"]
  note t2 = byte_transfer_frame [OF wired_board, of 0
      "mcu0\<lparr>DDR := 0x0D, PORT := 0x09\<rparr>" "[]"]
  have b: "CLK board = 2" "DATA board = 1" "SEL board = 0" "SW board = 3"
    "BV (CLK board) = 4"
    by (simp_all add: board_def BV_def)
  have p: "PORT (mcu0\<lparr>DDR := 0x0F, PORT := 0x08\<rparr>) = 8"
    "DDR (mcu0\<lparr>DDR := 0x0F, PORT := 0x08\<rparr>) = 0x0F"
    "PORT (mcu0\<lparr>DDR := 0x0D, PORT := 0x09\<rparr>) = 9"
    "DDR (mcu0\<lparr>DDR := 0x0D, PORT := 0x09\<rparr>) = 0x0D"
    by (simp_all add: mcu0_def)
  have s: "bit (PORT (twspi_send board 0xA5 (mcu0\<lparr>DDR := 0x0F, PORT := 0x08\<rparr>))) j =
      (if j = 2 then True else if j = 1 then bit (0xA5 :: u8) 0 else bit (8 :: u8) j)" for j
    using t1 [THEN conjunct1, THEN spec, of j] by (simp only: b p)
  have g0: "PORT (snd (twspi_get board (mcu0\<lparr>DDR := 0x0D, PORT := 0x09\<rparr>))) =
      PORT (mcu0\<lparr>DDR := 0x0D, PORT := 0x09\<rparr>) OR BV (CLK board)"
    "DDR (snd (twspi_get board (mcu0\<lparr>DDR := 0x0D, PORT := 0x09\<rparr>))) =
      DDR (mcu0\<lparr>DDR := 0x0D, PORT := 0x09\<rparr>)"
    using t2 by blast+
  have g: "PORT (snd (twspi_get board (mcu0\<lparr>DDR := 0x0D, PORT := 0x09\<rparr>))) = 0x0D"
    "DDR (snd (twspi_get board (mcu0\<lparr>DDR := 0x0D, PORT := 0x09\<rparr>))) = 0x0D"
    by (simp_all only: g0 p) (simp add: board_def BV_def)
  have dd0: "DDR (twspi_send board 0xA5 (mcu0\<lparr>DDR := 0x0F, PORT := 0x08\<rparr>)) =
      DDR (mcu0\<lparr>DDR := 0x0F, PORT := 0x08\<rparr>)"
    using t1 by blast
  have dd: "DDR (twspi_send board 0xA5 (mcu0\<lparr>DDR := 0x0F, PORT := 0x08\<rparr>)) = 0x0F"
    by (simp only: dd0 p)
  show ?thesis
    using s [of 0] s [of 1] s [of 2] s [of 3] g dd wired_board by simp
qed

section \<open>Buffer transfers\<close>

text \<open>
  C3. For every length other than 0, \<^verbatim>\<open>twspi_send_buf\<close> is \<^verbatim>\<open>twspi_send\<close> applied once to
  each byte of the buffer, the bytes at \<open>buf\<close>, \<open>buf + 1\<close>, ... in this order: none is
  skipped, repeated or moved. On the bus, the statements executed are those of the
  first byte, then those of the second, and so on. The length is a \<^verbatim>\<open>uint8_t\<close>, so the
  buffer has at most 255 bytes.
\<close>

theorem twspi_send_buf_in_order:
  assumes "len \<noteq> 0"
  shows "twspi_send_buf w buf len s =
      fold (twspi_send w) (map (\<lambda>k. sram s (buf + k)) [0..<unat len]) s
    \<and> trace (twspi_send_buf w buf len s) =
      trace s @ concat (map (\<lambda>k. send_events w (sram s (buf + k))) [0..<unat len])"
proof -
  note n = iterations_of_len [OF assms]
  from send_buf_iter [OF n(1) n(2), of w buf s]
  have eq: "twspi_send_buf w buf len s =
      fold (twspi_send w) (map (\<lambda>k. sram s (buf + k)) [0..<unat len]) s"
    by (simp only: n(3))
  show ?thesis
    by (simp only: eq trace_fold_twspi_send map_map comp_def simp_thms)
qed

theorem twspi_send_buf_in_order_witness:
  "(2 :: u8) \<noteq> 0 \<and>
   twspi_send_buf board 0x100 2 (mcu0\<lparr>sram := (\<lambda>a. 0)(0x100 := 0xA5, 0x101 := 0x3C)\<rparr>) =
     twspi_send board 0x3C (twspi_send board 0xA5
       (mcu0\<lparr>sram := (\<lambda>a. 0)(0x100 := 0xA5, 0x101 := 0x3C)\<rparr>))"
proof -
  have ne: "(2 :: u8) \<noteq> 0" by simp
  have "[0..<unat (2 :: u8)] = [0, 1]"
    by (simp add: upt_rec)
  with twspi_send_buf_in_order [OF ne, of board "0x100"
      "mcu0\<lparr>sram := (\<lambda>a. 0)(0x100 := 0xA5, 0x101 := 0x3C)\<rparr>"]
  show ?thesis by simp
qed

text \<open>
  C6. With length 0 the first decrement of the 8-bit counter wraps to 255, which is not
  zero, so the loops go on: \<^verbatim>\<open>twspi_send_buf\<close> sends the 256 bytes at \<open>buf\<close> to
  \<open>buf + 255\<close> (256 times the 40 statements of a byte), and \<^verbatim>\<open>twspi_get_buf\<close> receives 256
  bytes (2048 reads of the input register) and stores them at \<open>buf\<close> to \<open>buf + 255\<close>.
  Neither rejects nor skips the call.
\<close>

theorem zero_length_runs_256_times:
  "twspi_send_buf w buf 0 s =
      twspi_send_buf w (buf + 1) 255 (twspi_send w (sram s buf) s)
    \<and> twspi_send_buf w buf 0 s =
      fold (twspi_send w) (map (\<lambda>k. sram s (buf + k)) [0..<256]) s
    \<and> length (trace (twspi_send_buf w buf 0 s)) = length (trace s) + 256 * 40
    \<and> twspi_get_buf w buf 0 s =
      (snd (getBuffer_spec w 256 s))
        \<lparr>sram := store_bytes buf (fst (getBuffer_spec w 256 s)) (sram s)\<rparr>
    \<and> length (fst (getBuffer_spec w 256 s)) = 256
    \<and> reads (twspi_get_buf w buf 0 s) = reads s + 8 * 256"
proof -
  have z: "(of_nat 256 :: u8) = 0" by simp
  have a: "twspi_send_buf w buf 0 s =
      twspi_send_buf w (buf + 1) 255 (twspi_send w (sram s buf) s)"
  proof -
    have m: "(255 :: u8) = - 1" by simp
    show ?thesis
      unfolding m using send_buf_step [of 0 w buf s] by simp
  qed
  have b: "twspi_send_buf w buf 0 s =
      fold (twspi_send w) (map (\<lambda>k. sram s (buf + k)) [0..<256]) s"
    using send_buf_iter [of 256 w buf s] by (simp only: z)
  have c: "length (trace (twspi_send_buf w buf 0 s)) = length (trace s) + 256 * 40"
    by (simp only: b trace_fold_twspi_send)
      (simp add: length_concat comp_def length_send_events sum_list_triv del: upt_Suc)
  have d: "twspi_get_buf w buf 0 s =
      (snd (getBuffer_spec w 256 s))
        \<lparr>sram := store_bytes buf (fst (getBuffer_spec w 256 s)) (sram s)\<rparr>"
    using get_buf_iter [of 256 w buf s] by (simp only: z)
  have e: "length (fst (getBuffer_spec w 256 s)) = 256"
    "reads (snd (getBuffer_spec w 256 s)) = reads s + 8 * 256"
    using getBuffer_spec_frame [of w 256 s] by simp_all
  have f: "reads (twspi_get_buf w buf 0 s) = reads s + 8 * 256"
    by (simp only: d) (simp add: e)
  from a b c d e(1) f show ?thesis by (simp only: simp_thms)
qed

theorem zero_length_runs_256_times_witness:
  "length (trace (twspi_send_buf board 0 0 mcu0)) = 10240
    \<and> reads (twspi_get_buf board 0 0 mcu0) = 2048"
proof -
  note t = zero_length_runs_256_times [of board 0 mcu0]
  have "trace mcu0 = []" and "reads mcu0 = 0"
    by (simp_all add: mcu0_def)
  with t [THEN conjunct2, THEN conjunct2, THEN conjunct1]
    t [THEN conjunct2, THEN conjunct2, THEN conjunct2, THEN conjunct2, THEN conjunct2]
  show ?thesis by simp
qed

end
